theory Spec2Isabelle
  imports Main "HOL-Library.Char_ord" "HOL-Library.List_Lexorder"
begin

section \<open>String primitives of the source language\<close>

text \<open>
  A Python \<open>str\<close> is modelled as a \<open>string\<close>: one \<open>char\<close> per code point, for the
  code points below 256.  The text handed to the validator is the decoded content of the
  input file (the byte-order mark, if any, is removed by the codec before the program sees
  the text).  Strings are ordered by code point, lexicographically, which is the order
  of Python's \<open>sorted\<close> on \<open>str\<close>.
\<close>

text \<open>\<open>str.isspace\<close> on the code points below 256.\<close>

definition isspace :: "char \<Rightarrow> bool" where
  "isspace c = (c \<in> set [CHR 0x09, CHR 0x0A, CHR 0x0B, CHR 0x0C, CHR 0x0D,
                           CHR 0x1C, CHR 0x1D, CHR 0x1E, CHR 0x1F, CHR 0x20,
                           CHR 0x85, CHR 0xA0])"

text \<open>\<open>s.strip(chars)\<close>: drop the characters satisfying \<open>p\<close> at both ends.\<close>

definition strip_with :: "(char \<Rightarrow> bool) \<Rightarrow> string \<Rightarrow> string" where
  "strip_with p s = rev (dropWhile p (rev (dropWhile p s)))"

text \<open>\<open>s.strip()\<close>\<close>

definition str_strip :: "string \<Rightarrow> string" where
  "str_strip s = strip_with isspace s"

text \<open>\<open>s.strip('"')\<close>\<close>

definition strip_quote :: "string \<Rightarrow> string" where
  "strip_quote s = strip_with (\<lambda>c. c = CHR 0x22) s"

text \<open>\<open>s.split(sep)\<close> for a one-character separator: never returns the empty list.\<close>

fun str_split :: "char \<Rightarrow> string \<Rightarrow> string list" where
  "str_split sep [] = [[]]"
| "str_split sep (c # cs) =
     (if c = sep then [] # str_split sep cs
      else (case str_split sep cs of
              [] \<Rightarrow> [[c]]
            | w # ws \<Rightarrow> (c # w) # ws))"

text \<open>\<open>sep.join(xs)\<close>\<close>

fun str_join :: "string \<Rightarrow> string list \<Rightarrow> string" where
  "str_join sep [] = []"
| "str_join sep [x] = x"
| "str_join sep (x # y # ys) = x @ sep @ str_join sep (y # ys)"

text \<open>\<open>s.endswith(suffix)\<close>\<close>

definition endswith :: "string \<Rightarrow> string \<Rightarrow> bool" where
  "endswith s suf = (length suf \<le> length s \<and> drop (length s - length suf) s = suf)"

text \<open>\<open>s.replace(" ", "_")\<close>\<close>

definition replace_spaces :: "string \<Rightarrow> string" where
  "replace_spaces s = map (\<lambda>c. if c = CHR '' '' then CHR ''_'' else c) s"

text \<open>The decimal numeral of a natural number, as \<open>str(n)\<close> and an f-string print it.\<close>

definition digit_char :: "nat \<Rightarrow> char" where
  "digit_char d = ''0123456789'' ! d"

function decimal :: "nat \<Rightarrow> string" where
  "decimal n = (if n < 10 then [digit_char n] else decimal (n div 10) @ [digit_char (n mod 10)])"
  by pat_completeness auto
termination
  by (relation "measure (\<lambda>n. n)") auto

declare decimal.simps [simp del]

section \<open>Reading the input file\<close>

text \<open>
  The file is opened in text mode with universal newlines: \<open>\r\n\<close> and a lone \<open>\r\<close>
  are read as \<open>\n\<close>.
\<close>

fun universal_newlines :: "string \<Rightarrow> string" where
  "universal_newlines [] = []"
| "universal_newlines [c] = (if c = CHR 0x0D then [CHR 0x0A] else [c])"
| "universal_newlines (c # c' # cs) =
     (if c = CHR 0x0D then
        (if c' = CHR 0x0A then CHR 0x0A # universal_newlines cs
         else CHR 0x0A # universal_newlines (c' # cs))
      else c # universal_newlines (c' # cs))"

text \<open>The lines of a text, each with its line end kept, as iterating over a file gives them.\<close>

fun readlines :: "string \<Rightarrow> string list" where
  "readlines [] = []"
| "readlines (c # cs) =
     (if c = CHR 0x0A then [c] # readlines cs
      else (case readlines cs of
              [] \<Rightarrow> [[c]]
            | l # ls \<Rightarrow> (c # l) # ls))"

text \<open>\<open>fin.readline()\<close> on a fresh file, and the lines left for the loop after it.\<close>

definition readline :: "string list \<Rightarrow> string" where
  "readline ls = (case ls of [] \<Rightarrow> [] | l # _ \<Rightarrow> l)"

definition rest_lines :: "string list \<Rightarrow> string list" where
  "rest_lines ls = (case ls of [] \<Rightarrow> [] | _ # r \<Rightarrow> r)"

section \<open>The validator\<close>

definition MIN_COLS :: nat where
  "MIN_COLS = 6"

definition HEADER :: "string list" where
  "HEADER = [''species'', ''file'', ''tax1'', ''tax2'', ''mode'', ''uniprot'']"

text \<open>
  Every fatal condition of \<open>check_samplesheet\<close>: the message is printed and the process
  exits with status 1.  The row errors carry the raw line.
\<close>

datatype error =
    HeaderMismatch "string list"
  | InvalidColumns string
  | InvalidPopulatedColumns string
  | SampleNotSpecified string
  | FastaSpaces string
  | FastaExtension string
  | DuplicateRows string
  | NoEntries

text \<open>The text \<open>print_error\<close> prints before it exits.\<close>

definition print_error :: "string \<Rightarrow> string \<Rightarrow> string \<Rightarrow> string" where
  "print_error err context context_str =
     (if context \<noteq> [] \<and> context_str \<noteq> [] then
        ''ERROR: Please check samplesheet -> '' @ err @ [CHR 0x0A] @ str_strip context
          @ '': '' @ [CHR 0x27] @ str_strip context_str @ [CHR 0x27]
      else ''ERROR: Please check samplesheet -> '' @ err)"

fun error_output :: "error \<Rightarrow> string" where
  "error_output (HeaderMismatch header) =
     ''ERROR: Please check samplesheet header -> '' @ str_join '','' header
       @ '' != '' @ str_join '','' HEADER"
| "error_output (InvalidColumns line) =
     print_error (''Invalid number of columns (minimum = '' @ decimal (length HEADER) @ '')!'')
       ''Line'' line"
| "error_output (InvalidPopulatedColumns line) =
     print_error (''Invalid number of populated columns (minimum = '' @ decimal MIN_COLS @ '')!'')
       ''Line'' line"
| "error_output (SampleNotSpecified line) =
     print_error ''Sample entry has not been specified!'' ''Line'' line"
| "error_output (FastaSpaces line) =
     print_error ''fasta file contains spaces!'' ''Line'' line"
| "error_output (FastaExtension line) =
     print_error (''Fasta file does not have extension '' @ [CHR 0x27] @ ''.fasta'' @ [CHR 0x27]
                  @ '' or '' @ [CHR 0x27] @ ''.fa'' @ [CHR 0x27] @ ''!'') ''Line'' line"
| "error_output (DuplicateRows line) =
     print_error ''Samplesheet contains duplicate rows!'' ''Line'' line"
| "error_output NoEntries =
     print_error ''No entries to process!'' ''Samplesheet: {file_in}'' []"

definition warning_output :: "string \<Rightarrow> string" where
  "warning_output species =
     ''WARNING: Spaces have been replaced by underscores for sample: '' @ species"

text \<open>Line 49: the fields of the header line.\<close>

definition header_fields :: "string \<Rightarrow> string list" where
  "header_fields l = map strip_quote (str_split (CHR '','') (str_strip l))"

text \<open>Line 57: the fields of a data row.\<close>

definition split_fields :: "string \<Rightarrow> string list" where
  "split_fields line =
     map (\<lambda>x. strip_quote (str_strip x)) (str_split (CHR '','') (str_strip line))"

text \<open>
  Lines 60 to 112, the checks of one non-blank row: the warnings printed, and either the
  fatal error or the species name with its \<open>species_info\<close>.
\<close>

definition validate_row :: "string \<Rightarrow> string list \<times> (error + string \<times> string list)" where
  "validate_row line =
     (let lspl = split_fields line in
      if length lspl < length HEADER then ([], Inl (InvalidColumns line))
      else if length (filter (\<lambda>x. x \<noteq> []) lspl) < MIN_COLS
        then ([], Inl (InvalidPopulatedColumns line))
      else
        let species0 = lspl ! 0; file = lspl ! 1; tax1 = lspl ! 2; tax2 = lspl ! 3;
            mode = lspl ! 4; uniprot = lspl ! 5;
            warn = (if CHR '' '' \<in> set species0 then [warning_output species0] else []);
            species = (if CHR '' '' \<in> set species0 then replace_spaces species0 else species0)
        in
          if species = [] then (warn, Inl (SampleNotSpecified line))
          else if file \<noteq> [] \<and> CHR '' '' \<in> set file then (warn, Inl (FastaSpaces line))
          else if file \<noteq> [] \<and> \<not> endswith file ''.fasta'' \<and> \<not> endswith file ''.fa''
            then (warn, Inl (FastaExtension line))
          else (warn, Inr (species, [file, tax1, tax2, mode, uniprot])))"

text \<open>
  \<open>species_mapping_dict\<close>: a dictionary keeps its keys in insertion order, so it is an
  association list with one entry per key.
\<close>

type_synonym species_mapping = "(string \<times> string list list) list"

text \<open>\<open>species_mapping_dict[species].append(species_info)\<close>\<close>

definition dict_append :: "string \<Rightarrow> string list \<Rightarrow> species_mapping \<Rightarrow> species_mapping" where
  "dict_append species species_info d =
     map (\<lambda>(k, v). if k = species then (k, v @ [species_info]) else (k, v)) d"

text \<open>Lines 115 to 121.\<close>

definition add_species ::
  "species_mapping \<Rightarrow> string \<Rightarrow> string \<Rightarrow> string list \<Rightarrow> error + species_mapping" where
  "add_species d line species species_info =
     (case map_of d species of
        None \<Rightarrow> Inr (d @ [(species, [species_info])])
      | Some infos \<Rightarrow>
          if species_info \<in> set infos then Inl (DuplicateRows line)
          else Inr (dict_append species species_info d))"

text \<open>The body of the loop over the lines (lines 56 to 121).\<close>

definition check_line ::
  "species_mapping \<Rightarrow> string \<Rightarrow> string list \<times> (error + species_mapping)" where
  "check_line d line =
     (if str_strip line = [] then ([], Inr d)
      else (case validate_row line of
              (warn, Inl e) \<Rightarrow> (warn, Inl e)
            | (warn, Inr (species, species_info)) \<Rightarrow>
                (warn, add_species d line species species_info)))"

text \<open>The loop: it stops at the first fatal error, keeping what was printed before.\<close>

fun check_lines ::
  "species_mapping \<Rightarrow> string list \<Rightarrow> string list \<times> (error + species_mapping)" where
  "check_lines d [] = ([], Inr d)"
| "check_lines d (line # ls) =
     (case check_line d line of
        (warn, Inl e) \<Rightarrow> (warn, Inl e)
      | (warn, Inr d') \<Rightarrow>
          (case check_lines d' ls of (warn', r) \<Rightarrow> (warn @ warn', r)))"

text \<open>Lines 43 to 121: the read phase.\<close>

definition read_samplesheet :: "string \<Rightarrow> string list \<times> (error + species_mapping)" where
  "read_samplesheet text =
     (let ls = readlines (universal_newlines text);
          header = header_fields (readline ls)
      in if take (length HEADER) header \<noteq> HEADER then ([], Inl (HeaderMismatch header))
         else check_lines [] (rest_lines ls))"

text \<open>\<open>f"{species}_T{idx+1}"\<close> with \<open>n = idx + 1\<close>.\<close>

definition run_id :: "string \<Rightarrow> nat \<Rightarrow> string" where
  "run_id species n = species @ ''_T'' @ decimal n"

text \<open>
  \<open>species_mapping_dict[species]\<close> in the write phase; the key is one of the dictionary's
  own keys there, so the lookup cannot raise.
\<close>

definition lookup :: "species_mapping \<Rightarrow> string \<Rightarrow> string list list" where
  "lookup d species = (case map_of d species of None \<Rightarrow> [] | Some infos \<Rightarrow> infos)"

text \<open>Line 141: the string written for one entry.\<close>

definition output_row :: "string \<Rightarrow> nat \<Rightarrow> string list \<Rightarrow> string" where
  "output_row species idx val = str_join '','' (run_id species (idx + 1) # val) @ [CHR 0x0A]"

definition species_rows :: "string \<Rightarrow> string list list \<Rightarrow> string list" where
  "species_rows species infos = map (\<lambda>(idx, val). output_row species idx val) (enumerate 0 infos)"

text \<open>Lines 128 to 141: the strings written to the output file, in order.\<close>

definition write_samplesheet :: "species_mapping \<Rightarrow> string list" where
  "write_samplesheet d =
     (str_join '','' [''species'', ''file'', ''tax1'', ''tax2'', ''mode'', ''uniprot''] @ [CHR 0x0A])
     # concat (map (\<lambda>species. species_rows species (lookup d species)) (sort (map fst d)))"

text \<open>
  What one run leaves behind: the lines printed, the exit status, and the output file
  (\<open>None\<close> when it was never opened, otherwise the strings written to it, in order).
  Creating the parent directory and opening the output file are taken to succeed: a
  failure there is an I/O error raised after the read phase, not a validation failure.
\<close>

record outcome =
  stdout :: "string list"
  status :: nat
  file_out :: "string list option"

definition check_samplesheet :: "string \<Rightarrow> outcome" where
  "check_samplesheet text =
     (case read_samplesheet text of
        (warn, Inl e) \<Rightarrow> \<lparr>stdout = warn @ [error_output e], status = 1, file_out = None\<rparr>
      | (warn, Inr d) \<Rightarrow>
          if length d > 0 then \<lparr>stdout = warn, status = 0, file_out = Some (write_samplesheet d)\<rparr>
          else \<lparr>stdout = warn @ [error_output NoEntries], status = 1, file_out = None\<rparr>)"


section \<open>Notions used to state the properties\<close>

text \<open>
  The records of the rows of an input, in input order: for every non-blank line that passes
  the row checks of \<open>validate_row\<close>, the species name and the remainder it yields.
\<close>

fun validated_records :: "string list \<Rightarrow> (string \<times> string list) list" where
  "validated_records [] = []"
| "validated_records (line # ls) =
     (if str_strip line = [] then validated_records ls
      else (case snd (validate_row line) of
              Inl e \<Rightarrow> validated_records ls
            | Inr r \<Rightarrow> r # validated_records ls))"

text \<open>The data lines of an input text: all lines after the header line.\<close>

definition data_lines :: "string \<Rightarrow> string list" where
  "data_lines text = rest_lines (readlines (universal_newlines text))"

text \<open>
  A dictionary groups a list of records when its keys are the species of the records, one
  entry each, and the sequence of a species holds the remainders of its records in order.
\<close>

definition grouped :: "species_mapping \<Rightarrow> (string \<times> string list) list \<Rightarrow> bool" where
  "grouped d recs \<longleftrightarrow>
     distinct (map fst d) \<and> set (map fst d) = fst ` set recs \<and>
     (\<forall>sp. lookup d sp = map snd (filter (\<lambda>r. fst r = sp) recs))"

text \<open>The species column of a written row: the text before its first comma.\<close>

definition species_column :: "string \<Rightarrow> string" where
  "species_column row = hd (str_split (CHR '','') row)"

text \<open>The decimal digits.\<close>

definition isdigit :: "char \<Rightarrow> bool" where
  "isdigit c = (c \<in> set ''0123456789'')"


section \<open>Basic facts about the primitives\<close>

lemma length_HEADER: "length HEADER = 6"
  by (simp add: HEADER_def)

lemma replace_spaces_Nil [simp]: "replace_spaces s = [] \<longleftrightarrow> s = []"
  by (simp add: replace_spaces_def)

text \<open>\<open>endswith\<close> is the suffix test.\<close>

lemma endswith_iff: "endswith s suf \<longleftrightarrow> (\<exists>p. s = p @ suf)"
proof
  assume "endswith s suf"
  then have "s = take (length s - length suf) s @ suf"
    by (metis append_take_drop_id endswith_def)
  then show "\<exists>p. s = p @ suf" ..
next
  assume "\<exists>p. s = p @ suf"
  then show "endswith s suf" by (auto simp: endswith_def)
qed

section \<open>The two column-count checks\<close>

text \<open>
  C3, as stated: every non-blank row with at least 6 fields has at least 6 non-empty
  fields.  It fails for the row \<open>a,,c,d,e,f\<close>: six fields, five of them populated, and the
  row is rejected by the populated-columns check.
\<close>

theorem populated_check_counterexample:
  "str_strip ''a,,c,d,e,f'' \<noteq> [] \<and>
   length HEADER \<le> length (split_fields ''a,,c,d,e,f'') \<and>
   length (filter (\<lambda>x. x \<noteq> []) (split_fields ''a,,c,d,e,f'')) < MIN_COLS \<and>
   validate_row ''a,,c,d,e,f'' = ([], Inl (InvalidPopulatedColumns ''a,,c,d,e,f''))"
  by code_simp

text \<open>
  C3, amended: the subsumption goes the other way.  A row with at least 6 non-empty
  fields has at least 6 fields, so the column-count check is the redundant one; a row
  with at least 6 fields is rejected by the populated-columns check exactly when fewer
  than 6 of its fields are non-empty.
\<close>

theorem populated_check_subsumes_columns:
  "(MIN_COLS \<le> length (filter (\<lambda>x. x \<noteq> []) (split_fields line))
      \<longrightarrow> length HEADER \<le> length (split_fields line)) \<and>
   (length HEADER \<le> length (split_fields line) \<longrightarrow>
      (validate_row line = ([], Inl (InvalidPopulatedColumns line))
         \<longleftrightarrow> length (filter (\<lambda>x. x \<noteq> []) (split_fields line)) < MIN_COLS))"
proof (intro conjI impI)
  assume "MIN_COLS \<le> length (filter (\<lambda>x. x \<noteq> []) (split_fields line))"
  then have "MIN_COLS \<le> length (split_fields line)"
    by (rule le_trans) (rule length_filter_le)
  then show "length HEADER \<le> length (split_fields line)"
    by (simp add: MIN_COLS_def length_HEADER)
next
  assume "length HEADER \<le> length (split_fields line)"
  then show "validate_row line = ([], Inl (InvalidPopulatedColumns line))
         \<longleftrightarrow> length (filter (\<lambda>x. x \<noteq> []) (split_fields line)) < MIN_COLS"
    by (auto simp: validate_row_def Let_def)
qed

theorem populated_check_subsumes_columns_witness:
  "MIN_COLS \<le> length (filter (\<lambda>x. x \<noteq> []) (split_fields ''a,b.fa,c,d,e,f''))
   \<and> length HEADER \<le> length (split_fields ''a,b.fa,c,d,e,f'')
   \<and> validate_row ''a,b.fa,c,d,e,f'' \<noteq> ([], Inl (InvalidPopulatedColumns ''a,b.fa,c,d,e,f''))"
proof -
  have h: "MIN_COLS \<le> length (filter (\<lambda>x. x \<noteq> []) (split_fields ''a,b.fa,c,d,e,f''))"
    by code_simp
  from populated_check_subsumes_columns [of "''a,b.fa,c,d,e,f''"] h show ?thesis
    by auto
qed

section \<open>Trailing fields\<close>

text \<open>What \<open>validate_row\<close> computes once the two column checks are passed.\<close>

lemma validate_row_checked:
  assumes "length HEADER \<le> length (split_fields line)"
      and "MIN_COLS \<le> length (filter (\<lambda>x. x \<noteq> []) (split_fields line))"
  shows "validate_row line =
     (let lspl = split_fields line;
          species0 = lspl ! 0; file = lspl ! 1;
          warn = (if CHR '' '' \<in> set species0 then [warning_output species0] else []);
          species = (if CHR '' '' \<in> set species0 then replace_spaces species0 else species0)
      in if species = [] then (warn, Inl (SampleNotSpecified line))
         else if file \<noteq> [] \<and> CHR '' '' \<in> set file then (warn, Inl (FastaSpaces line))
         else if file \<noteq> [] \<and> \<not> endswith file ''.fasta'' \<and> \<not> endswith file ''.fa''
           then (warn, Inl (FastaExtension line))
         else (warn, Inr (species, [file, lspl ! 2, lspl ! 3, lspl ! 4, lspl ! 5])))"
  using assms by (simp add: validate_row_def Let_def not_less [symmetric])

text \<open>
  C4, as stated: rows that agree on their first 6 trimmed fields are accepted or rejected
  alike.  The rows \<open>a,,c,d,e,f\<close> and \<open>a,,c,d,e,f,g\<close> agree on their first 6 fields; the
  first is rejected for too few populated columns, the second is accepted, because the
  seventh field counts as a populated column.
\<close>

theorem trailing_fields_counterexample:
  "take 6 (split_fields ''a,,c,d,e,f'') = take 6 (split_fields ''a,,c,d,e,f,g'') \<and>
   validate_row ''a,,c,d,e,f'' = ([], Inl (InvalidPopulatedColumns ''a,,c,d,e,f'')) \<and>
   validate_row ''a,,c,d,e,f,g'' = ([], Inr (''a'', ['''', ''c'', ''d'', ''e'', ''f'']))"
  by code_simp

text \<open>
  C4, amended: the populated-columns check counts the non-empty fields of the whole row;
  a row with at least 6 fields is rejected by it exactly when fewer than 6 of all its
  fields are non-empty.  Two rows that agree on their first 6 trimmed fields and both pass
  the two column checks print the same warnings and are accepted alike, with the same
  record.
\<close>

theorem trailing_fields_ignored:
  "(length HEADER \<le> length (split_fields line) \<longrightarrow>
      (validate_row line = ([], Inl (InvalidPopulatedColumns line))
         \<longleftrightarrow> length (filter (\<lambda>x. x \<noteq> []) (split_fields line)) < MIN_COLS)) \<and>
   (take 6 (split_fields l1) = take 6 (split_fields l2) \<and>
    length HEADER \<le> length (split_fields l1) \<and>
    length HEADER \<le> length (split_fields l2) \<and>
    MIN_COLS \<le> length (filter (\<lambda>x. x \<noteq> []) (split_fields l1)) \<and>
    MIN_COLS \<le> length (filter (\<lambda>x. x \<noteq> []) (split_fields l2)) \<longrightarrow>
      fst (validate_row l1) = fst (validate_row l2) \<and>
      (\<forall>r. snd (validate_row l1) = Inr r \<longleftrightarrow> snd (validate_row l2) = Inr r))"
proof (intro conjI impI)
  assume "length HEADER \<le> length (split_fields line)"
  then show "validate_row line = ([], Inl (InvalidPopulatedColumns line))
         \<longleftrightarrow> length (filter (\<lambda>x. x \<noteq> []) (split_fields line)) < MIN_COLS"
    by (auto simp: validate_row_def Let_def)
next
  assume a: "take 6 (split_fields l1) = take 6 (split_fields l2) \<and>
    length HEADER \<le> length (split_fields l1) \<and>
    length HEADER \<le> length (split_fields l2) \<and>
    MIN_COLS \<le> length (filter (\<lambda>x. x \<noteq> []) (split_fields l1)) \<and>
    MIN_COLS \<le> length (filter (\<lambda>x. x \<noteq> []) (split_fields l2))"
  have nth_eq: "split_fields l1 ! i = split_fields l2 ! i" if "i < 6" for i
  proof -
    have "take 6 (split_fields l1) ! i = take 6 (split_fields l2) ! i"
      using a by simp
    with that show ?thesis by simp
  qed
  have e: "split_fields l1 ! 0 = split_fields l2 ! 0" "split_fields l1 ! 1 = split_fields l2 ! 1"
    "split_fields l1 ! 2 = split_fields l2 ! 2" "split_fields l1 ! 3 = split_fields l2 ! 3"
    "split_fields l1 ! 4 = split_fields l2 ! 4" "split_fields l1 ! 5 = split_fields l2 ! 5"
    "split_fields l1 ! Suc 0 = split_fields l2 ! Suc 0"
    using nth_eq [of 0] nth_eq [of 1] nth_eq [of 2] nth_eq [of 3] nth_eq [of 4] nth_eq [of 5]
    by simp_all
  have v1: "validate_row l1 = (let lspl = split_fields l1;
          species0 = lspl ! 0; file = lspl ! 1;
          warn = (if CHR '' '' \<in> set species0 then [warning_output species0] else []);
          species = (if CHR '' '' \<in> set species0 then replace_spaces species0 else species0)
      in if species = [] then (warn, Inl (SampleNotSpecified l1))
         else if file \<noteq> [] \<and> CHR '' '' \<in> set file then (warn, Inl (FastaSpaces l1))
         else if file \<noteq> [] \<and> \<not> endswith file ''.fasta'' \<and> \<not> endswith file ''.fa''
           then (warn, Inl (FastaExtension l1))
         else (warn, Inr (species, [file, lspl ! 2, lspl ! 3, lspl ! 4, lspl ! 5])))"
    using a by (intro validate_row_checked) simp_all
  have v2: "validate_row l2 = (let lspl = split_fields l2;
          species0 = lspl ! 0; file = lspl ! 1;
          warn = (if CHR '' '' \<in> set species0 then [warning_output species0] else []);
          species = (if CHR '' '' \<in> set species0 then replace_spaces species0 else species0)
      in if species = [] then (warn, Inl (SampleNotSpecified l2))
         else if file \<noteq> [] \<and> CHR '' '' \<in> set file then (warn, Inl (FastaSpaces l2))
         else if file \<noteq> [] \<and> \<not> endswith file ''.fasta'' \<and> \<not> endswith file ''.fa''
           then (warn, Inl (FastaExtension l2))
         else (warn, Inr (species, [file, lspl ! 2, lspl ! 3, lspl ! 4, lspl ! 5])))"
    using a by (intro validate_row_checked) simp_all
  show "fst (validate_row l1) = fst (validate_row l2)"
    unfolding v1 v2 Let_def e by auto
  show "\<forall>r. snd (validate_row l1) = Inr r \<longleftrightarrow> snd (validate_row l2) = Inr r"
    unfolding v1 v2 Let_def e by auto
qed

theorem trailing_fields_ignored_witness:
  "validate_row ''a,b.fa,c,d,e,f,g,h'' = validate_row ''a,b.fa,c,d,e,f'' \<and>
   snd (validate_row ''a,b.fa,c,d,e,f'') = Inr (''a'', [''b.fa'', ''c'', ''d'', ''e'', ''f''])"
proof -
  have h: "take 6 (split_fields ''a,b.fa,c,d,e,f,g,h'') = take 6 (split_fields ''a,b.fa,c,d,e,f'') \<and>
    length HEADER \<le> length (split_fields ''a,b.fa,c,d,e,f,g,h'') \<and>
    length HEADER \<le> length (split_fields ''a,b.fa,c,d,e,f'') \<and>
    MIN_COLS \<le> length (filter (\<lambda>x. x \<noteq> []) (split_fields ''a,b.fa,c,d,e,f,g,h'')) \<and>
    MIN_COLS \<le> length (filter (\<lambda>x. x \<noteq> []) (split_fields ''a,b.fa,c,d,e,f''))"
    by code_simp
  have r: "snd (validate_row ''a,b.fa,c,d,e,f'') = Inr (''a'', [''b.fa'', ''c'', ''d'', ''e'', ''f''])"
    by code_simp
  from trailing_fields_ignored [of "''a,b.fa,c,d,e,f''" "''a,b.fa,c,d,e,f,g,h''" "''a,b.fa,c,d,e,f''"] h
  have "fst (validate_row ''a,b.fa,c,d,e,f,g,h'') = fst (validate_row ''a,b.fa,c,d,e,f'')"
    and "snd (validate_row ''a,b.fa,c,d,e,f,g,h'') = Inr (''a'', [''b.fa'', ''c'', ''d'', ''e'', ''f'']) \<longleftrightarrow>
      snd (validate_row ''a,b.fa,c,d,e,f'') = Inr (''a'', [''b.fa'', ''c'', ''d'', ''e'', ''f''])"
    by blast+
  with r show ?thesis by (simp add: prod_eq_iff)
qed

section \<open>Spaces in the species name\<close>

lemma map_of_append_new:
  "map_of d k = None \<Longrightarrow> map_of (d @ [(k, v)]) k = Some v"
  by (simp add: map_add_def)

lemma map_of_dict_append:
  "map_of (dict_append k info d) k' =
     (if k' = k then map_option (\<lambda>v. v @ [info]) (map_of d k) else map_of d k')"
  by (induction d) (auto simp: dict_append_def)

lemma lookup_add_species:
  assumes "add_species d line sp info = Inr d'"
  shows "lookup d' sp = lookup d sp @ [info]"
    and "k \<noteq> sp \<Longrightarrow> lookup d' k = lookup d k"
  using assms
  by (auto simp: add_species_def lookup_def map_of_dict_append map_of_append_new map_add_def
      split: option.splits if_splits)

text \<open>
  C5, as stated: every whitespace run in the species name becomes one underscore.  A run
  of two spaces becomes two underscores, and a tab inside the name is left as it is, with
  no warning.
\<close>

theorem species_whitespace_counterexample:
  "validate_row ''homo  sapiens,x.fa,c,d,e,f'' =
     ([warning_output ''homo  sapiens''], Inr (''homo__sapiens'', [''x.fa'', ''c'', ''d'', ''e'', ''f''])) \<and>
   isspace (CHR 0x09) \<and>
   validate_row (''homo'' @ [CHR 0x09] @ ''sapiens,x.fa,c,d,e,f'') =
     ([], Inr (''homo'' @ [CHR 0x09] @ ''sapiens'', [''x.fa'', ''c'', ''d'', ''e'', ''f'']))"
  by code_simp

text \<open>
  C5, amended: for every row that passes the two column checks and whose species field
  contains a space character, one warning naming the original value is printed, the row is
  not rejected for its species, each space character of the name is replaced by one
  underscore, and the row goes on to the file checks: when the file field passes them the
  record is accepted under the replaced name, and the loop body files it under that name.
\<close>

theorem species_spaces_replaced:
  assumes "length HEADER \<le> length (split_fields line)"
      and "MIN_COLS \<le> length (filter (\<lambda>x. x \<noteq> []) (split_fields line))"
      and "CHR '' '' \<in> set (split_fields line ! 0)"
  shows "fst (validate_row line) = [warning_output (split_fields line ! 0)] \<and>
     snd (validate_row line) \<noteq> Inl (SampleNotSpecified line) \<and>
     (\<forall>sp info. snd (validate_row line) = Inr (sp, info) \<longrightarrow>
           sp = map (\<lambda>c. if c = CHR '' '' then CHR ''_'' else c) (split_fields line ! 0)) \<and>
     (split_fields line ! 1 = [] \<or>
         (CHR '' '' \<notin> set (split_fields line ! 1) \<and>
          (endswith (split_fields line ! 1) ''.fasta'' \<or> endswith (split_fields line ! 1) ''.fa''))
         \<longrightarrow> snd (validate_row line) =
               Inr (replace_spaces (split_fields line ! 0),
                    [split_fields line ! 1, split_fields line ! 2, split_fields line ! 3,
                     split_fields line ! 4, split_fields line ! 5])) \<and>
     (\<forall>d d'. str_strip line \<noteq> [] \<and> snd (check_line d line) = Inr d' \<longrightarrow>
           lookup d' (replace_spaces (split_fields line ! 0)) =
           lookup d (replace_spaces (split_fields line ! 0)) @
             [[split_fields line ! 1, split_fields line ! 2, split_fields line ! 3,
               split_fields line ! 4, split_fields line ! 5]])"
proof -
  note v = validate_row_checked [OF assms(1,2)]
  have ne: "split_fields line ! 0 \<noteq> []"
    using assms(3) by auto
  have p1: "fst (validate_row line) = [warning_output (split_fields line ! 0)]"
    using assms(3) ne by (simp add: v Let_def)
  have p2: "snd (validate_row line) \<noteq> Inl (SampleNotSpecified line)"
    using assms(3) ne by (simp add: v Let_def)
  have p3: "\<forall>sp info. snd (validate_row line) = Inr (sp, info) \<longrightarrow>
           sp = map (\<lambda>c. if c = CHR '' '' then CHR ''_'' else c) (split_fields line ! 0)"
    using assms(3) ne by (auto simp: v Let_def replace_spaces_def split: if_splits)
  have p4: "split_fields line ! 1 = [] \<or>
         (CHR '' '' \<notin> set (split_fields line ! 1) \<and>
          (endswith (split_fields line ! 1) ''.fasta'' \<or> endswith (split_fields line ! 1) ''.fa''))
         \<longrightarrow> snd (validate_row line) =
               Inr (replace_spaces (split_fields line ! 0),
                    [split_fields line ! 1, split_fields line ! 2, split_fields line ! 3,
                     split_fields line ! 4, split_fields line ! 5])"
    using assms(3) ne by (auto simp: v Let_def)
  have p5: "\<forall>d d'. str_strip line \<noteq> [] \<and> snd (check_line d line) = Inr d' \<longrightarrow>
           lookup d' (replace_spaces (split_fields line ! 0)) =
           lookup d (replace_spaces (split_fields line ! 0)) @
             [[split_fields line ! 1, split_fields line ! 2, split_fields line ! 3,
               split_fields line ! 4, split_fields line ! 5]]"
  proof (intro allI impI)
    fix d d'
    assume a: "str_strip line \<noteq> [] \<and> snd (check_line d line) = Inr d'"
    obtain w r where vr: "validate_row line = (w, r)"
      by (cases "validate_row line")
    from a vr obtain sp info where r: "r = Inr (sp, info)"
      and add: "add_species d line sp info = Inr d'"
      by (cases r) (auto simp: check_line_def split: prod.splits)
    from vr r have "validate_row line = (w, Inr (sp, info))" by simp
    then have "sp = replace_spaces (split_fields line ! 0)"
      and "info = [split_fields line ! 1, split_fields line ! 2, split_fields line ! 3,
               split_fields line ! 4, split_fields line ! 5]"
      using assms(3) ne by (auto simp: v Let_def split: if_splits)
    with lookup_add_species(1) [OF add] show "lookup d' (replace_spaces (split_fields line ! 0)) =
           lookup d (replace_spaces (split_fields line ! 0)) @
             [[split_fields line ! 1, split_fields line ! 2, split_fields line ! 3,
               split_fields line ! 4, split_fields line ! 5]]"
      by simp
  qed
  from p1 p2 p3 p4 p5 show ?thesis by (intro conjI)
qed

theorem species_spaces_replaced_witness:
  "fst (validate_row ''homo sapiens,x.fa,c,d,e,f'') = [warning_output ''homo sapiens''] \<and>
   snd (validate_row ''homo sapiens,x.fa,c,d,e,f'') =
     Inr (''homo_sapiens'', [''x.fa'', ''c'', ''d'', ''e'', ''f'']) \<and>
   lookup (projr (snd (check_line [] ''homo sapiens,x.fa,c,d,e,f''))) ''homo_sapiens'' =
     [[''x.fa'', ''c'', ''d'', ''e'', ''f'']]"
proof -
  let ?l = "''homo sapiens,x.fa,c,d,e,f''"
  have f: "split_fields ?l = [''homo sapiens'', ''x.fa'', ''c'', ''d'', ''e'', ''f'']"
    by code_simp
  have h1: "length HEADER \<le> length (split_fields ?l)"
    and h2: "MIN_COLS \<le> length (filter (\<lambda>x. x \<noteq> []) (split_fields ?l))"
    and h3: "CHR '' '' \<in> set (split_fields ?l ! 0)"
    by code_simp+
  have h4: "str_strip ?l \<noteq> []" by code_simp
  have h5: "snd (check_line [] ?l) = Inr (projr (snd (check_line [] ?l)))" by code_simp
  have h6: "endswith ''x.fa'' ''.fa''" by code_simp
  have h7: "replace_spaces ''homo sapiens'' = ''homo_sapiens''" by code_simp
  have h8: "lookup [] ''homo_sapiens'' = []" by code_simp
  from species_spaces_replaced [OF h1 h2 h3]
  have t1: "fst (validate_row ?l) = [warning_output (split_fields ?l ! 0)]"
    and t4: "split_fields ?l ! 1 = [] \<or>
         (CHR '' '' \<notin> set (split_fields ?l ! 1) \<and>
          (endswith (split_fields ?l ! 1) ''.fasta'' \<or> endswith (split_fields ?l ! 1) ''.fa''))
         \<longrightarrow> snd (validate_row ?l) =
               Inr (replace_spaces (split_fields ?l ! 0),
                    [split_fields ?l ! 1, split_fields ?l ! 2, split_fields ?l ! 3,
                     split_fields ?l ! 4, split_fields ?l ! 5])"
    and t5: "\<forall>d d'. str_strip ?l \<noteq> [] \<and> snd (check_line d ?l) = Inr d' \<longrightarrow>
           lookup d' (replace_spaces (split_fields ?l ! 0)) =
           lookup d (replace_spaces (split_fields ?l ! 0)) @
             [[split_fields ?l ! 1, split_fields ?l ! 2, split_fields ?l ! 3,
               split_fields ?l ! 4, split_fields ?l ! 5]]"
    by blast+
  from t1 have "fst (validate_row ?l) = [warning_output ''homo sapiens'']"
    by (simp add: f)
  moreover from t4 h6 h7 have "snd (validate_row ?l) =
     Inr (''homo_sapiens'', [''x.fa'', ''c'', ''d'', ''e'', ''f''])"
    by (simp add: f)
  moreover from t5 h4 h5 have "lookup (projr (snd (check_line [] ?l))) (replace_spaces (split_fields ?l ! 0)) =
     lookup [] (replace_spaces (split_fields ?l ! 0)) @ [[split_fields ?l ! 1, split_fields ?l ! 2, split_fields ?l ! 3,
               split_fields ?l ! 4, split_fields ?l ! 5]]"
    by blast
  then have "lookup (projr (snd (check_line [] ?l))) ''homo_sapiens'' = [[''x.fa'', ''c'', ''d'', ''e'', ''f'']]"
    using h7 h8 by (simp add: f)
  ultimately show ?thesis by simp
qed

section \<open>The checks of the file field\<close>

text \<open>
  C7, as stated: a non-empty file field containing any whitespace character is rejected.
  A file field with a tab inside and the suffix \<open>.fa\<close> is accepted.
\<close>

theorem fasta_whitespace_counterexample:
  "isspace (CHR 0x09) \<and>
   split_fields (''a,x'' @ [CHR 0x09] @ ''y.fa,c,d,e,f'') ! 1 = ''x'' @ [CHR 0x09] @ ''y.fa'' \<and>
   validate_row (''a,x'' @ [CHR 0x09] @ ''y.fa,c,d,e,f'') =
     ([], Inr (''a'', [''x'' @ [CHR 0x09] @ ''y.fa'', ''c'', ''d'', ''e'', ''f'']))"
  by code_simp

text \<open>
  C7, amended: for every row that reaches the file checks (both column checks passed and
  the species name not empty), a non-empty file field is rejected when it contains a space
  character, and otherwise rejected unless it ends with \<open>.fasta\<close> or \<open>.fa\<close>; in every
  other case, an empty file field among them, the row is accepted.
\<close>

theorem fasta_checks:
  assumes "length HEADER \<le> length (split_fields line)"
      and "MIN_COLS \<le> length (filter (\<lambda>x. x \<noteq> []) (split_fields line))"
      and "split_fields line ! 0 \<noteq> []"
  shows "(split_fields line ! 1 \<noteq> [] \<and> CHR '' '' \<in> set (split_fields line ! 1) \<longrightarrow>
            snd (validate_row line) = Inl (FastaSpaces line)) \<and>
         (split_fields line ! 1 \<noteq> [] \<and> CHR '' '' \<notin> set (split_fields line ! 1) \<and>
          \<not> (\<exists>p. split_fields line ! 1 = p @ ''.fasta'') \<and>
          \<not> (\<exists>p. split_fields line ! 1 = p @ ''.fa'') \<longrightarrow>
            snd (validate_row line) = Inl (FastaExtension line)) \<and>
         (split_fields line ! 1 \<noteq> [] \<and> CHR '' '' \<notin> set (split_fields line ! 1) \<and>
          ((\<exists>p. split_fields line ! 1 = p @ ''.fasta'') \<or> (\<exists>p. split_fields line ! 1 = p @ ''.fa'')) \<longrightarrow>
            (\<exists>sp. snd (validate_row line) =
               Inr (sp, [split_fields line ! 1, split_fields line ! 2, split_fields line ! 3,
                         split_fields line ! 4, split_fields line ! 5]))) \<and>
         (split_fields line ! 1 = [] \<longrightarrow>
            (\<exists>sp. snd (validate_row line) =
               Inr (sp, [[], split_fields line ! 2, split_fields line ! 3,
                         split_fields line ! 4, split_fields line ! 5])))"
proof -
  note v = validate_row_checked [OF assms(1,2)]
  show ?thesis
    using assms(3) unfolding endswith_iff [symmetric]
    by (auto simp: v Let_def)
qed

theorem fasta_checks_witness:
  "snd (validate_row ''a,sample.txt,c,d,e,f'') = Inl (FastaExtension ''a,sample.txt,c,d,e,f'') \<and>
   snd (validate_row ''a,sample 1.fasta,c,d,e,f'') = Inl (FastaSpaces ''a,sample 1.fasta,c,d,e,f'')"
proof -
  let ?l = "''a,sample.txt,c,d,e,f''"
  let ?m = "''a,sample 1.fasta,c,d,e,f''"
  have f: "split_fields ?l = [''a'', ''sample.txt'', ''c'', ''d'', ''e'', ''f'']"
    and g: "split_fields ?m = [''a'', ''sample 1.fasta'', ''c'', ''d'', ''e'', ''f'']"
    by code_simp+
  have h1: "length HEADER \<le> length (split_fields ?l)"
    and h2: "MIN_COLS \<le> length (filter (\<lambda>x. x \<noteq> []) (split_fields ?l))"
    and h3: "split_fields ?l ! 0 \<noteq> []"
    and k1: "length HEADER \<le> length (split_fields ?m)"
    and k2: "MIN_COLS \<le> length (filter (\<lambda>x. x \<noteq> []) (split_fields ?m))"
    and k3: "split_fields ?m ! 0 \<noteq> []"
    by code_simp+
  have e1: "\<not> (\<exists>p. ''sample.txt'' = p @ ''.fasta'')" and e2: "\<not> (\<exists>p. ''sample.txt'' = p @ ''.fa'')"
    unfolding endswith_iff [symmetric] by code_simp+
  from fasta_checks [OF h1 h2 h3] e1 e2
  have "snd (validate_row ?l) = Inl (FastaExtension ?l)"
    by (simp add: f)
  moreover from fasta_checks [OF k1 k2 k3]
  have "snd (validate_row ?m) = Inl (FastaSpaces ?m)"
    by (simp add: g)
  ultimately show ?thesis by simp
qed

section \<open>Duplicate rows\<close>

lemma keys_dict_append [simp]: "map fst (dict_append k info d) = map fst d"
  by (induction d) (auto simp: dict_append_def)

lemma map_of_Some_key: "map_of d k = Some v \<Longrightarrow> k \<in> fst ` set d"
  by (metis map_of_eq_None_iff option.distinct(1))

lemma keys_add_species:
  assumes "add_species d line sp info = Inr d'"
  shows "map fst d' = (if sp \<in> set (map fst d) then map fst d else map fst d @ [sp])"
  using assms
  by (auto simp: add_species_def map_of_eq_None_iff split: option.splits if_splits
      dest: map_of_Some_key)

lemma distinct_keys_add_species:
  assumes "add_species d line sp info = Inr d'" and "distinct (map fst d)"
  shows "distinct (map fst d')"
  using assms by (simp add: keys_add_species)







lemma read_samplesheet_Inr:
  assumes "read_samplesheet text = (w, Inr m)"
  shows "check_lines [] (rest_lines (readlines (universal_newlines text))) = (w, Inr m)"
  using assms by (auto simp: read_samplesheet_def Let_def split: if_splits)



section \<open>Fatal errors leave no output file\<close>

text \<open>
  C9: a run ends with status 0 or 1; whenever the status is not 0 the output file was
  never opened.  Every fatal error of the read phase (bad header, row error, duplicate
  row) and the empty result end the run with status 1, the error message printed last,
  and no output file.
\<close>

theorem no_output_on_failure:
  "(status (check_samplesheet text) = 0 \<or> status (check_samplesheet text) = 1) \<and>
   (status (check_samplesheet text) \<noteq> 0 \<longrightarrow> file_out (check_samplesheet text) = None) \<and>
   (snd (read_samplesheet text) = Inl e \<longrightarrow>
      status (check_samplesheet text) = 1 \<and> file_out (check_samplesheet text) = None \<and>
      stdout (check_samplesheet text) = fst (read_samplesheet text) @ [error_output e]) \<and>
   (snd (read_samplesheet text) = Inr [] \<longrightarrow>
      status (check_samplesheet text) = 1 \<and> file_out (check_samplesheet text) = None \<and>
      stdout (check_samplesheet text) = fst (read_samplesheet text) @ [error_output NoEntries])"
proof -
  obtain w r where rd: "read_samplesheet text = (w, r)"
    by (cases "read_samplesheet text")
  show ?thesis
  proof (cases r)
    case (Inl e')
    with rd show ?thesis by (simp add: check_samplesheet_def)
  next
    case (Inr d)
    with rd show ?thesis by (cases d) (simp_all add: check_samplesheet_def)
  qed
qed

theorem no_output_on_failure_witness:
  "status (check_samplesheet ''species,file,tax2,tax1,mode,uniprot'') = 1 \<and>
   file_out (check_samplesheet ''species,file,tax2,tax1,mode,uniprot'') = None \<and>
   status (check_samplesheet ''species,file,tax1,tax2,mode,uniprot'') = 1 \<and>
   file_out (check_samplesheet ''species,file,tax1,tax2,mode,uniprot'') = None"
proof -
  let ?bad = "''species,file,tax2,tax1,mode,uniprot''"
  let ?hdr = "''species,file,tax1,tax2,mode,uniprot''"
  have 1: "snd (read_samplesheet ?bad) =
      Inl (HeaderMismatch [''species'', ''file'', ''tax2'', ''tax1'', ''mode'', ''uniprot''])"
    by code_simp
  have 2: "snd (read_samplesheet ?hdr) = Inr []"
    by code_simp
  from no_output_on_failure [of ?bad "HeaderMismatch [''species'', ''file'', ''tax2'', ''tax1'', ''mode'', ''uniprot'']"] 1
  have "status (check_samplesheet ?bad) = 1 \<and> file_out (check_samplesheet ?bad) = None"
    by blast
  moreover from no_output_on_failure [of ?hdr] 2
  have "status (check_samplesheet ?hdr) = 1 \<and> file_out (check_samplesheet ?hdr) = None"
    by blast
  ultimately show ?thesis by simp
qed

section \<open>The header line\<close>

text \<open>
  C6 at the header \<open>species, file, tax1, tax2, mode, uniprot\<close>, whose tokens are the
  expected names once whitespace is trimmed: line 49 strips the whole line and then only
  the double quotes of each field, so the fields keep their leading space and the run
  ends with the header error, although the same line read as a data row (line 57, which
  trims each field) gives exactly the expected names.
\<close>

theorem header_fields_keep_whitespace:
  "header_fields (''species, file, tax1, tax2, mode, uniprot'' @ [CHR 0x0A]) =
     [''species'', '' file'', '' tax1'', '' tax2'', '' mode'', '' uniprot''] \<and>
   split_fields (''species, file, tax1, tax2, mode, uniprot'' @ [CHR 0x0A]) = HEADER \<and>
   read_samplesheet (''species, file, tax1, tax2, mode, uniprot'' @ [CHR 0x0A] @
                      ''human,human.fasta,l1,l2,denovo,true'' @ [CHR 0x0A]) =
     ([], Inl (HeaderMismatch [''species'', '' file'', '' tax1'', '' tax2'', '' mode'', '' uniprot''])) \<and>
   status (check_samplesheet (''species, file, tax1, tax2, mode, uniprot'' @ [CHR 0x0A] @
                      ''human,human.fasta,l1,l2,denovo,true'' @ [CHR 0x0A])) = 1 \<and>
   file_out (check_samplesheet (''species, file, tax1, tax2, mode, uniprot'' @ [CHR 0x0A] @
                      ''human,human.fasta,l1,l2,denovo,true'' @ [CHR 0x0A])) = None \<and>
   status (check_samplesheet (''species,file,tax1,tax2,mode,uniprot'' @ [CHR 0x0A] @
                      ''human,human.fasta,l1,l2,denovo,true'' @ [CHR 0x0A])) = 0"
  by code_simp

section \<open>The dictionary groups the records of the input\<close>

lemma grouped_Nil: "grouped [] []"
  by (simp add: grouped_def lookup_def)

lemma validated_records_append:
  "validated_records (xs @ ys) = validated_records xs @ validated_records ys"
  by (induction xs) (auto split: sum.splits)

lemma grouped_add_species:
  assumes "add_species d line sp info = Inr d'" and "grouped d recs"
  shows "grouped d' (recs @ [(sp, info)])"
proof -
  from assms(2) have dk: "distinct (map fst d)" and ks: "set (map fst d) = fst ` set recs"
    and lk: "\<And>k. lookup d k = map snd (filter (\<lambda>r. fst r = k) recs)"
    by (simp_all add: grouped_def)
  have 1: "distinct (map fst d')"
    using assms(1) dk by (rule distinct_keys_add_species)
  have 2: "set (map fst d') = fst ` set (recs @ [(sp, info)])"
    using ks by (auto simp: keys_add_species [OF assms(1)])
  have 3: "lookup d' k = map snd (filter (\<lambda>r. fst r = k) (recs @ [(sp, info)]))" for k
  proof (cases "k = sp")
    case True
    then show ?thesis by (simp add: lookup_add_species(1) [OF assms(1)] lk)
  next
    case False
    then show ?thesis using lookup_add_species(2) [OF assms(1), of k] by (auto simp: lk)
  qed
  from 1 2 3 show ?thesis unfolding grouped_def by blast
qed

lemma grouped_check_line:
  assumes "check_line d line = (w, Inr d')" and "grouped d recs"
  shows "grouped d' (recs @ validated_records [line])"
proof (cases "str_strip line = []")
  case True
  with assms show ?thesis by (simp add: check_line_def)
next
  case False
  with assms(1) obtain sp info where v: "validate_row line = (w, Inr (sp, info))"
    and a: "add_species d line sp info = Inr d'"
    by (auto simp: check_line_def split: prod.splits sum.splits)
  from False v have "validated_records [line] = [(sp, info)]" by simp
  with grouped_add_species [OF a assms(2)] show ?thesis by simp
qed

lemma grouped_check_lines:
  assumes "check_lines d ls = (w, Inr d')" and "grouped d recs"
  shows "grouped d' (recs @ validated_records ls)"
  using assms
proof (induction ls arbitrary: d w recs)
  case Nil
  then show ?case by simp
next
  case (Cons line ls)
  from Cons.prems(1) obtain w1 d1 w2 where
    1: "check_line d line = (w1, Inr d1)" and 2: "check_lines d1 ls = (w2, Inr d')"
    by (auto split: prod.splits sum.splits)
  from grouped_check_line [OF 1 Cons.prems(2)]
  have "grouped d1 (recs @ validated_records [line])" .
  from Cons.IH [OF 2 this] have "grouped d' ((recs @ validated_records [line]) @ validated_records ls)" .
  moreover have "validated_records (line # ls) = validated_records [line] @ validated_records ls"
    using validated_records_append [of "[line]" ls] by simp
  ultimately show ?case by simp
qed

lemma grouped_read_samplesheet:
  assumes "read_samplesheet text = (w, Inr d)"
  shows "grouped d (validated_records (data_lines text))"
  using grouped_check_lines [OF read_samplesheet_Inr [OF assms] grouped_Nil]
  by (simp add: data_lines_def)

text \<open>On a successful read phase every non-blank data line gave a record.\<close>

lemma check_line_nonblank:
  assumes "check_line d line = (w, Inr d')" and "str_strip line \<noteq> []"
  shows "\<exists>r. snd (validate_row line) = Inr r"
  using assms by (auto simp: check_line_def split: prod.splits sum.splits)

lemma check_lines_all_validated:
  assumes "check_lines d ls = (w, Inr d')"
  shows "length (validated_records ls) = length (filter (\<lambda>l. str_strip l \<noteq> []) ls)"
  using assms
proof (induction ls arbitrary: d w)
  case Nil
  then show ?case by simp
next
  case (Cons line ls)
  from Cons.prems(1) obtain w1 d1 w2 where
    1: "check_line d line = (w1, Inr d1)" and 2: "check_lines d1 ls = (w2, Inr d')"
    by (auto split: prod.splits sum.splits)
  from Cons.IH [OF 2] check_line_nonblank [OF 1] show ?case by auto
qed

text \<open>The sorted keys of a grouping dictionary.\<close>

lemma grouped_sorted_keys:
  assumes "grouped d recs"
  shows "sort (map fst d) = sort (remdups (map fst recs))"
proof (rule sorted_distinct_set_unique)
  show "sorted (sort (map fst d))" by simp
  show "sorted (sort (remdups (map fst recs)))" by simp
  from assms show "distinct (sort (map fst d))" by (simp add: grouped_def)
  show "distinct (sort (remdups (map fst recs)))" by simp
  from assms show "set (sort (map fst d)) = set (sort (remdups (map fst recs)))"
    by (simp add: grouped_def)
qed

section \<open>Run identifiers\<close>

lemma digit_char_isdigit: "d < 10 \<Longrightarrow> isdigit (digit_char d)"
proof -
  assume "d < 10"
  then have "d = 0 \<or> d = 1 \<or> d = 2 \<or> d = 3 \<or> d = 4 \<or> d = 5 \<or> d = 6 \<or> d = 7 \<or> d = 8 \<or> d = 9"
    by arith
  then show ?thesis
    by (elim disjE) (simp_all add: digit_char_def isdigit_def)
qed

lemma digit_char_inj:
  assumes "a < 10" and "b < 10" and "digit_char a = digit_char b"
  shows "a = b"
proof -
  from assms(1) have a: "a = 0 \<or> a = 1 \<or> a = 2 \<or> a = 3 \<or> a = 4 \<or> a = 5 \<or> a = 6 \<or> a = 7 \<or> a = 8 \<or> a = 9"
    by arith
  from assms(2) have b: "b = 0 \<or> b = 1 \<or> b = 2 \<or> b = 3 \<or> b = 4 \<or> b = 5 \<or> b = 6 \<or> b = 7 \<or> b = 8 \<or> b = 9"
    by arith
  from a b assms(3) show ?thesis
    by (elim disjE) (simp_all add: digit_char_def)
qed

lemma decimal_digits: "\<forall>c \<in> set (decimal n). isdigit c"
proof (induction n rule: decimal.induct)
  case (1 n)
  show ?case
  proof (cases "n < 10")
    case True
    then show ?thesis by (subst decimal.simps) (simp add: digit_char_isdigit)
  next
    case False
    with 1 show ?thesis by (subst decimal.simps) (simp add: digit_char_isdigit)
  qed
qed

lemma decimal_not_Nil: "decimal n \<noteq> []"
  by (subst decimal.simps) simp

lemma decimal_length_one: "n < 10 \<Longrightarrow> length (decimal n) = 1"
  by (subst decimal.simps) simp

lemma decimal_length_more: "\<not> n < 10 \<Longrightarrow> 2 \<le> length (decimal n)"
proof -
  assume a: "\<not> n < 10"
  have "decimal (n div 10) \<noteq> []" by (rule decimal_not_Nil)
  then have "1 \<le> length (decimal (n div 10))" by (cases "decimal (n div 10)") simp_all
  with a show ?thesis by (subst decimal.simps) simp
qed


lemma decimal_inj: "decimal n = decimal m \<Longrightarrow> n = m"
proof (induction n arbitrary: m rule: less_induct)
  case (less n)
  show ?case
  proof (cases "n < 10")
    case n: True
    show ?thesis
    proof (cases "m < 10")
      case True
      have "decimal n = [digit_char n]" using n by (subst decimal.simps) simp
      moreover have "decimal m = [digit_char m]" using True by (subst decimal.simps) simp
      ultimately have "digit_char n = digit_char m" using less.prems by simp
      with n True show ?thesis by (rule digit_char_inj)
    next
      case False
      with n less.prems decimal_length_one [of n] decimal_length_more [of m]
      show ?thesis by simp
    qed
  next
    case n: False
    show ?thesis
    proof (cases "m < 10")
      case True
      with n less.prems decimal_length_one [of m] decimal_length_more [of n]
      show ?thesis by simp
    next
      case False
      have dn: "decimal n = decimal (n div 10) @ [digit_char (n mod 10)]"
        using n by (subst decimal.simps) simp
      have dm: "decimal m = decimal (m div 10) @ [digit_char (m mod 10)]"
        using False by (subst decimal.simps) simp
      from less.prems have e: "decimal (n div 10) = decimal (m div 10)"
        and d: "digit_char (n mod 10) = digit_char (m mod 10)"
        unfolding dn dm by simp_all
      from n have "n div 10 < n" by simp
      from less.IH [OF this e] have 1: "n div 10 = m div 10" .
      have 2: "n mod 10 = m mod 10"
        by (rule digit_char_inj [OF _ _ d]) simp_all
      have "n = n div 10 * 10 + n mod 10" by simp
      also have "\<dots> = m div 10 * 10 + m mod 10" using 1 2 by simp
      also have "\<dots> = m" by simp
      finally show ?thesis .
    qed
  qed
qed


lemma run_id_rev: "rev (run_id sp n) = rev (decimal n) @ CHR ''T'' # (CHR ''_'' # rev sp)"
  by (simp add: run_id_def)

lemma run_id_digits:
  "takeWhile isdigit (rev (run_id sp n)) = rev (decimal n)"
proof -
  have 1: "\<not> isdigit (CHR ''T'')" by (simp add: isdigit_def)
  have 2: "\<forall>c \<in> set (rev (decimal n)). isdigit c" using decimal_digits by simp
  have "takeWhile isdigit (rev (decimal n) @ CHR ''T'' # (CHR ''_'' # rev sp))
      = takeWhile isdigit (rev (decimal n))"
    using 1 by (rule takeWhile_tail)
  also have "\<dots> = rev (decimal n)"
    using 2 by (simp only: takeWhile_eq_all_conv)
  finally show ?thesis by (simp only: run_id_rev)
qed

lemma run_id_inj: "run_id s1 n1 = run_id s2 n2 \<longleftrightarrow> s1 = s2 \<and> n1 = n2"
proof
  assume e: "run_id s1 n1 = run_id s2 n2"
  then have "takeWhile isdigit (rev (run_id s1 n1)) = takeWhile isdigit (rev (run_id s2 n2))"
    by (rule arg_cong)
  then have "rev (decimal n1) = rev (decimal n2)"
    by (simp only: run_id_digits)
  then have "decimal n1 = decimal n2" by (simp only: rev_is_rev_conv)
  then have n: "n1 = n2" by (rule decimal_inj)
  from e have "s1 @ (''_T'' @ decimal n1) = s2 @ (''_T'' @ decimal n1)"
    unfolding run_id_def n by simp
  then have "s1 = s2" by (simp only: same_append_eq append_same_eq)
  with n show "s1 = s2 \<and> n1 = n2" by blast
next
  assume "s1 = s2 \<and> n1 = n2"
  then show "run_id s1 n1 = run_id s2 n2" by simp
qed

lemma isdigit_not_comma: "isdigit c \<Longrightarrow> c \<noteq> CHR '',''"
  by (auto simp: isdigit_def)

lemma run_id_no_comma:
  assumes "CHR '','' \<notin> set sp"
  shows "CHR '','' \<notin> set (run_id sp n)"
proof -
  have "CHR '','' \<notin> set (decimal n)"
    using decimal_digits [of n] isdigit_not_comma by blast
  with assms show ?thesis by (simp add: run_id_def)
qed

section \<open>What the fields and records are made of\<close>

lemma str_split_not_Nil [simp]: "str_split sep s \<noteq> []"
  by (induction s) (auto split: list.splits)

lemma str_split_no_sep: "f \<in> set (str_split sep s) \<Longrightarrow> sep \<notin> set f"
  by (induction s arbitrary: f) (auto split: if_splits list.splits)

lemma hd_str_split: "sep \<notin> set a \<Longrightarrow> hd (str_split sep (a @ sep # r)) = a"
  by (induction a) (auto split: list.splits)

lemma set_strip_with: "set (strip_with p s) \<subseteq> set s"
proof -
  have "set (dropWhile p (rev (dropWhile p s))) \<subseteq> set (rev (dropWhile p s))"
    by (rule set_dropWhileD [THEN subsetI])
  also have "\<dots> \<subseteq> set s"
    using set_dropWhileD [of _ p s] by auto
  finally show ?thesis by (simp add: strip_with_def)
qed

lemma split_fields_no_comma:
  assumes "f \<in> set (split_fields line)"
  shows "CHR '','' \<notin> set f"
proof -
  from assms obtain x where x: "x \<in> set (str_split (CHR '','') (str_strip line))"
    and f: "f = strip_quote (str_strip x)"
    by (auto simp: split_fields_def)
  from x have "CHR '','' \<notin> set x" by (rule str_split_no_sep)
  moreover have "set f \<subseteq> set x"
    unfolding f strip_quote_def str_strip_def
    using set_strip_with [of "\<lambda>c. c = CHR 0x22" "strip_with isspace x"] set_strip_with [of isspace x]
    by blast
  ultimately show ?thesis by blast
qed

lemma validate_row_Inr:
  assumes "validate_row line = (w, Inr (sp, info))"
  shows "length HEADER \<le> length (split_fields line)"
    and "MIN_COLS \<le> length (filter (\<lambda>x. x \<noteq> []) (split_fields line))"
    and "sp = (if CHR '' '' \<in> set (split_fields line ! 0) then replace_spaces (split_fields line ! 0)
               else split_fields line ! 0)"
    and "info = [split_fields line ! 1, split_fields line ! 2, split_fields line ! 3,
                 split_fields line ! 4, split_fields line ! 5]"
    and "sp \<noteq> []"
proof -
  from assms show 1: "length HEADER \<le> length (split_fields line)"
    by (auto simp: validate_row_def Let_def split: if_splits)
  from assms show 2: "MIN_COLS \<le> length (filter (\<lambda>x. x \<noteq> []) (split_fields line))"
    by (auto simp: validate_row_def Let_def split: if_splits)
  note v = validate_row_checked [OF 1 2]
  from assms show "sp = (if CHR '' '' \<in> set (split_fields line ! 0) then replace_spaces (split_fields line ! 0)
               else split_fields line ! 0)"
    unfolding v Let_def by (auto split: if_splits)
  from assms show "info = [split_fields line ! 1, split_fields line ! 2, split_fields line ! 3,
                 split_fields line ! 4, split_fields line ! 5]"
    unfolding v Let_def by (auto split: if_splits)
  from assms show "sp \<noteq> []"
    unfolding v Let_def by (auto split: if_splits)
qed

lemma validate_row_length_info:
  "validate_row line = (w, Inr (sp, info)) \<Longrightarrow> length info = 5"
  by (drule validate_row_Inr(4)) simp

lemma replace_spaces_no_comma: "CHR '','' \<notin> set s \<Longrightarrow> CHR '','' \<notin> set (replace_spaces s)"
  by (auto simp: replace_spaces_def)

lemma validate_row_species_no_comma:
  assumes "validate_row line = (w, Inr (sp, info))"
  shows "CHR '','' \<notin> set sp"
proof -
  from validate_row_Inr(1) [OF assms] have "0 < length (split_fields line)"
    by (cases "split_fields line") (simp_all add: length_HEADER)
  then have "split_fields line ! 0 \<in> set (split_fields line)" by (rule nth_mem)
  then have "CHR '','' \<notin> set (split_fields line ! 0)" by (rule split_fields_no_comma)
  then show ?thesis
    unfolding validate_row_Inr(3) [OF assms] by (simp add: replace_spaces_no_comma)
qed

lemma validated_records_mem:
  assumes "(sp, info) \<in> set (validated_records ls)"
  shows "\<exists>line \<in> set ls. str_strip line \<noteq> [] \<and> (\<exists>w. validate_row line = (w, Inr (sp, info)))"
  using assms
proof (induction ls)
  case Nil
  then show ?case by simp
next
  case (Cons l ls)
  show ?case
  proof (cases "str_strip l \<noteq> [] \<and> snd (validate_row l) = Inr (sp, info)")
    case True
    then have "validate_row l = (fst (validate_row l), Inr (sp, info))"
      by (simp add: prod_eq_iff)
    with True show ?thesis by auto
  next
    case False
    with Cons.prems have "(sp, info) \<in> set (validated_records ls)"
      by (auto split: if_splits sum.splits)
    with Cons.IH show ?thesis by auto
  qed
qed

lemma grouped_key_record:
  assumes "grouped d recs" and "k \<in> set (map fst d)"
  shows "\<exists>info. (k, info) \<in> set recs"
  using assms by (auto simp: grouped_def)

lemma grouped_lookup_record:
  assumes "grouped d recs" and "info \<in> set (lookup d k)"
  shows "(k, info) \<in> set recs"
  using assms by (auto simp: grouped_def)

section \<open>The written rows\<close>

lemma check_samplesheet_success:
  assumes "status (check_samplesheet text) = 0"
  obtains w d where "read_samplesheet text = (w, Inr d)" and "d \<noteq> []"
    and "check_samplesheet text = \<lparr>stdout = w, status = 0, file_out = Some (write_samplesheet d)\<rparr>"
proof -
  obtain w r where rd: "read_samplesheet text = (w, r)"
    by (cases "read_samplesheet text")
  show ?thesis
  proof (cases r)
    case (Inl e)
    with rd assms show ?thesis by (simp add: check_samplesheet_def)
  next
    case (Inr d)
    with rd assms have "d \<noteq> []"
      by (auto simp: check_samplesheet_def split: if_splits)
    with rd Inr that show ?thesis by (simp add: check_samplesheet_def)
  qed
qed

lemma map_index_enumerate:
  "map (\<lambda>(i, v). f i) (enumerate n xs) = map f [n..<n + length xs]"
proof -
  have "map (\<lambda>(i, v). f i) (enumerate n xs) = map (f \<circ> fst) (enumerate n xs)"
    by (simp add: case_prod_unfold comp_def)
  also have "\<dots> = map f (map fst (enumerate n xs))"
    by (simp only: map_map)
  also have "\<dots> = map f [n..<n + length xs]"
    by (simp only: map_fst_enumerate)
  finally show ?thesis .
qed

lemma species_column_output_row:
  assumes "CHR '','' \<notin> set sp" and "val \<noteq> []"
  shows "species_column (output_row sp idx val) = run_id sp (idx + 1)"
proof -
  from assms(2) obtain v vs where val: "val = v # vs" by (cases val) auto
  have "output_row sp idx val =
      run_id sp (idx + 1) @ CHR '','' # (str_join '','' (v # vs) @ [CHR 0x0A])"
    by (simp add: output_row_def val)
  moreover have "CHR '','' \<notin> set (run_id sp (idx + 1))"
    using assms(1) by (rule run_id_no_comma)
  ultimately show ?thesis
    by (simp add: species_column_def hd_str_split)
qed

lemma species_column_species_rows:
  assumes "CHR '','' \<notin> set sp" and "\<forall>val \<in> set infos. val \<noteq> []"
  shows "map species_column (species_rows sp infos) =
         map (\<lambda>i. run_id sp (i + 1)) [0..<length infos]"
proof -
  have "map species_column (species_rows sp infos) =
        map (\<lambda>(idx, val). species_column (output_row sp idx val)) (enumerate 0 infos)"
    by (simp add: species_rows_def case_prod_unfold comp_def)
  also have "\<dots> = map (\<lambda>(idx, val). run_id sp (idx + 1)) (enumerate 0 infos)"
  proof (rule map_cong [OF refl])
    fix x assume "x \<in> set (enumerate 0 infos)"
    then have "snd x \<in> snd ` set (enumerate 0 infos)" by (rule imageI)
    then have "snd x \<in> set (map snd (enumerate 0 infos))" by (simp only: set_map)
    then have "snd x \<in> set infos" by (simp only: map_snd_enumerate)
    with assms(2) have "snd x \<noteq> []" by blast
    with assms(1) show "(case x of (idx, val) \<Rightarrow> species_column (output_row sp idx val)) =
        (case x of (idx, val) \<Rightarrow> run_id sp (idx + 1))"
      by (cases x) (simp add: species_column_output_row)
  qed
  also have "\<dots> = map (\<lambda>i. run_id sp (i + 1)) [0..<length infos]"
    using map_index_enumerate [of "\<lambda>i. run_id sp (i + 1)" 0 infos] by simp
  finally show ?thesis .
qed

lemma distinct_concat_map:
  assumes "distinct ks"
      and "\<And>k. k \<in> set ks \<Longrightarrow> distinct (f k)"
      and "\<And>k k'. k \<in> set ks \<Longrightarrow> k' \<in> set ks \<Longrightarrow> k \<noteq> k' \<Longrightarrow> set (f k) \<inter> set (f k') = {}"
  shows "distinct (concat (map f ks))"
  using assms
proof (induction ks)
  case Nil
  then show ?case by simp
next
  case (Cons k ks)
  have "distinct (concat (map f ks))"
    by (rule Cons.IH) (use Cons.prems in auto)
  moreover have "distinct (f k)" using Cons.prems(2) by simp
  moreover have "set (f k) \<inter> set (f k') = {}" if "k' \<in> set ks" for k'
    using Cons.prems(1) Cons.prems(3) [of k k'] that by auto
  ultimately show ?case by auto
qed

lemma distinct_run_ids:
  assumes "distinct ks"
  shows "distinct (concat (map (\<lambda>sp. map (\<lambda>i. run_id sp (i + 1)) [0..<n sp]) ks))"
proof (rule distinct_concat_map [OF assms])
  fix k
  show "distinct (map (\<lambda>i. run_id k (i + 1)) [0..<n k])"
    by (auto simp: distinct_map inj_on_def run_id_inj)
next
  fix k k' :: string
  assume "k \<noteq> k'"
  then show "set (map (\<lambda>i. run_id k (i + 1)) [0..<n k]) \<inter>
       set (map (\<lambda>i. run_id k' (i + 1)) [0..<n k']) = {}"
    by (auto simp: run_id_inj)
qed

text \<open>The species column of the rows written for a dictionary that groups validated records.\<close>

lemma species_columns_written:
  assumes "grouped d (validated_records ls)"
  shows "map species_column (concat (map (\<lambda>sp. species_rows sp (lookup d sp)) (sort (map fst d))))
       = concat (map (\<lambda>sp. map (\<lambda>i. run_id sp (i + 1)) [0..<length (lookup d sp)]) (sort (map fst d)))"
proof -
  have "map species_column (species_rows sp (lookup d sp)) =
        map (\<lambda>i. run_id sp (i + 1)) [0..<length (lookup d sp)]"
    if "sp \<in> set (sort (map fst d))" for sp
  proof (rule species_column_species_rows)
    from that have "sp \<in> set (map fst d)" by simp
    from grouped_key_record [OF assms this] obtain info
      where "(sp, info) \<in> set (validated_records ls)" ..
    from validated_records_mem [OF this] show "CHR '','' \<notin> set sp"
      using validate_row_species_no_comma by blast
    show "\<forall>val \<in> set (lookup d sp). val \<noteq> []"
    proof
      fix val assume "val \<in> set (lookup d sp)"
      from grouped_lookup_record [OF assms this] have "(sp, val) \<in> set (validated_records ls)" .
      from validated_records_mem [OF this] have "length val = 5"
        using validate_row_length_info by blast
      then show "val \<noteq> []" by auto
    qed
  qed
  then have "map (\<lambda>sp. map species_column (species_rows sp (lookup d sp))) (sort (map fst d))
      = map (\<lambda>sp. map (\<lambda>i. run_id sp (i + 1)) [0..<length (lookup d sp)]) (sort (map fst d))"
    by (intro map_cong refl)
  then have "concat (map (\<lambda>sp. map species_column (species_rows sp (lookup d sp))) (sort (map fst d)))
      = concat (map (\<lambda>sp. map (\<lambda>i. run_id sp (i + 1)) [0..<length (lookup d sp)]) (sort (map fst d)))"
    by (rule arg_cong)
  then show ?thesis
    by (simp only: map_concat map_map comp_def)
qed


text \<open>
  C10: a run identifier determines its species name and its index, so identifiers of two
  species, or of two indices of one species, differ; and in every output written, the
  species column of each row is a run identifier with a positive index and the species
  columns of the rows are pairwise distinct.
\<close>

theorem run_ids_distinct:
  "(run_id s1 n1 = run_id s2 n2 \<longleftrightarrow> s1 = s2 \<and> n1 = n2) \<and>
   (status (check_samplesheet text) = 0 \<longrightarrow>
      (\<exists>rows. file_out (check_samplesheet text) =
                 Some ((''species,file,tax1,tax2,mode,uniprot'' @ [CHR 0x0A]) # rows) \<and>
              (\<forall>row \<in> set rows. \<exists>sp n. 0 < n \<and> species_column row = run_id sp n) \<and>
              distinct (map species_column rows)))"
proof (intro conjI impI)
  show "run_id s1 n1 = run_id s2 n2 \<longleftrightarrow> s1 = s2 \<and> n1 = n2"
    by (rule run_id_inj)
next
  assume "status (check_samplesheet text) = 0"
  then obtain w d where rd: "read_samplesheet text = (w, Inr d)"
    and cs: "check_samplesheet text = \<lparr>stdout = w, status = 0, file_out = Some (write_samplesheet d)\<rparr>"
    by (rule check_samplesheet_success)
  let ?rows = "concat (map (\<lambda>sp. species_rows sp (lookup d sp)) (sort (map fst d)))"
  let ?ids = "concat (map (\<lambda>sp. map (\<lambda>i. run_id sp (i + 1)) [0..<length (lookup d sp)]) (sort (map fst d)))"
  from grouped_read_samplesheet [OF rd] have g: "grouped d (validated_records (data_lines text))" .
  have ids: "map species_column ?rows = ?ids"
    using g by (rule species_columns_written)
  have 1: "file_out (check_samplesheet text) =
                 Some ((''species,file,tax1,tax2,mode,uniprot'' @ [CHR 0x0A]) # ?rows)"
    by (simp add: cs write_samplesheet_def)
  have 2: "\<forall>row \<in> set ?rows. \<exists>sp n. 0 < n \<and> species_column row = run_id sp n"
  proof
    fix row assume "row \<in> set ?rows"
    then have "species_column row \<in> species_column ` set ?rows" by (rule imageI)
    then have "species_column row \<in> set (map species_column ?rows)" by (simp only: set_map)
    then have "species_column row \<in> set ?ids" by (simp only: ids)
    then obtain sp where "species_column row \<in> set (map (\<lambda>i. run_id sp (i + 1)) [0..<length (lookup d sp)])"
      by (auto simp only: set_concat set_map)
    then obtain i where "species_column row = run_id sp (i + 1)" by auto
    then show "\<exists>sp n. 0 < n \<and> species_column row = run_id sp n"
      by (intro exI [of _ sp] exI [of _ "i + 1"]) simp
  qed
  have 3: "distinct (map species_column ?rows)"
  proof -
    from g have "distinct (sort (map fst d))" by (simp add: grouped_def)
    then have "distinct ?ids" by (rule distinct_run_ids)
    then show ?thesis by (simp only: ids)
  qed
  from 1 2 3 show "\<exists>rows. file_out (check_samplesheet text) =
                 Some ((''species,file,tax1,tax2,mode,uniprot'' @ [CHR 0x0A]) # rows) \<and>
              (\<forall>row \<in> set rows. \<exists>sp n. 0 < n \<and> species_column row = run_id sp n) \<and>
              distinct (map species_column rows)"
    by blast
qed

theorem run_ids_distinct_witness:
  "status (check_samplesheet (''species,file,tax1,tax2,mode,uniprot'' @ [CHR 0x0A] @
      ''cat,a.fa,l1,l2,m,u'' @ [CHR 0x0A] @ ''cat_T1,a.fa,l1,l2,m,u'' @ [CHR 0x0A] @
      ''cat,b.fa,l1,l2,m,u'' @ [CHR 0x0A])) = 0 \<and>
   distinct (map species_column
      [''cat_T1,a.fa,l1,l2,m,u'' @ [CHR 0x0A], ''cat_T2,b.fa,l1,l2,m,u'' @ [CHR 0x0A],
       ''cat_T1_T1,a.fa,l1,l2,m,u'' @ [CHR 0x0A]])"
proof -
  let ?t = "''species,file,tax1,tax2,mode,uniprot'' @ [CHR 0x0A] @
      ''cat,a.fa,l1,l2,m,u'' @ [CHR 0x0A] @ ''cat_T1,a.fa,l1,l2,m,u'' @ [CHR 0x0A] @
      ''cat,b.fa,l1,l2,m,u'' @ [CHR 0x0A]"
  let ?rows = "[''cat_T1,a.fa,l1,l2,m,u'' @ [CHR 0x0A], ''cat_T2,b.fa,l1,l2,m,u'' @ [CHR 0x0A],
       ''cat_T1_T1,a.fa,l1,l2,m,u'' @ [CHR 0x0A]]"
  have s: "status (check_samplesheet ?t) = 0" by code_simp
  have f: "file_out (check_samplesheet ?t) =
      Some ((''species,file,tax1,tax2,mode,uniprot'' @ [CHR 0x0A]) # ?rows)"
    by code_simp
  from run_ids_distinct [of "[]" 0 "[]" 0 ?t] s
  obtain rows where "file_out (check_samplesheet ?t) =
      Some ((''species,file,tax1,tax2,mode,uniprot'' @ [CHR 0x0A]) # rows)"
    and "distinct (map species_column rows)"
    by blast
  with f have "distinct (map species_column ?rows)" by simp
  with s show ?thesis by blast
qed

section \<open>The layout of the output file\<close>

lemma sum_list_indicator:
  assumes "distinct ks" and "x \<in> set ks"
  shows "sum_list (map (\<lambda>k. if x = k then 1 else 0) ks) = (1::nat)"
  using assms
proof (induction ks)
  case Nil
  then show ?case by simp
next
  case (Cons k ks)
  show ?case
  proof (cases "x = k")
    case True
    with Cons.prems have "x \<notin> set ks" by simp
    then have "sum_list (map (\<lambda>k. if x = k then 1 else 0) ks) = (0::nat)"
      by (induction ks) auto
    with True show ?thesis by simp
  next
    case False
    with Cons show ?thesis by simp
  qed
qed

lemma sum_list_group_lengths:
  assumes "distinct ks" and "fst ` set recs \<subseteq> set ks"
  shows "sum_list (map (\<lambda>k. length (filter (\<lambda>r. fst r = k) recs)) ks) = length recs"
  using assms(2)
proof (induction recs)
  case Nil
  then show ?case by simp
next
  case (Cons r rs)
  have "sum_list (map (\<lambda>k. length (filter (\<lambda>r. fst r = k) (r # rs))) ks) =
        sum_list (map (\<lambda>k. (if fst r = k then 1 else 0) + length (filter (\<lambda>r. fst r = k) rs)) ks)"
    by (rule arg_cong [where f = sum_list]) (rule map_cong, simp_all)
  also have "\<dots> = sum_list (map (\<lambda>k. if fst r = k then 1 else 0) ks)
                 + sum_list (map (\<lambda>k. length (filter (\<lambda>r. fst r = k) rs)) ks)"
    by (rule sum_list_addf)
  also have "sum_list (map (\<lambda>k. if fst r = k then 1 else 0) ks) = (1::nat)"
    by (rule sum_list_indicator [OF assms(1)]) (use Cons.prems in simp)
  also have "sum_list (map (\<lambda>k. length (filter (\<lambda>r. fst r = k) rs)) ks) = length rs"
    by (rule Cons.IH) (use Cons.prems in simp)
  finally show ?case by simp
qed

lemma length_concat_map:
  "length (concat (map f ks)) = sum_list (map (\<lambda>k. length (f k)) ks)"
  by (simp add: length_concat comp_def)

lemma header_line: 
  "str_join '','' [''species'', ''file'', ''tax1'', ''tax2'', ''mode'', ''uniprot''] @ [CHR 0x0A]
     = ''species,file,tax1,tax2,mode,uniprot'' @ [CHR 0x0A]"
  by simp

lemma write_samplesheet_grouped:
  assumes "grouped d recs"
  shows "write_samplesheet d =
     (''species,file,tax1,tax2,mode,uniprot'' @ [CHR 0x0A]) #
     concat (map (\<lambda>sp. map (\<lambda>(idx, val). str_join '','' (run_id sp (idx + 1) # val) @ [CHR 0x0A])
                          (enumerate 0 (map snd (filter (\<lambda>r. fst r = sp) recs))))
                 (sort (remdups (map fst recs))))"
proof -
  from assms have l: "\<And>sp. lookup d sp = map snd (filter (\<lambda>r. fst r = sp) recs)"
    by (simp add: grouped_def)
  have "write_samplesheet d =
     (''species,file,tax1,tax2,mode,uniprot'' @ [CHR 0x0A]) #
     concat (map (\<lambda>sp. species_rows sp (lookup d sp)) (sort (map fst d)))"
    unfolding write_samplesheet_def header_line ..
  then show ?thesis
    unfolding grouped_sorted_keys [OF assms] l species_rows_def output_row_def .
qed

text \<open>
  C1: for every accepted input, the output file starts with the header line; the rows
  after it are, for the species names of the validated records in sorted order (strictly
  increasing, each name once), the records of that species in input order, each written
  as the comma-join of the run identifier with the 1-based position and the 5 fields of
  the remainder, ended by a newline.  There is one row per validated record, and every
  non-blank data line gave a validated record.
\<close>

theorem output_file_layout:
  assumes "status (check_samplesheet text) = 0"
  shows "\<exists>recs rows.
     recs = validated_records (data_lines text) \<and>
     file_out (check_samplesheet text) =
       Some ((''species,file,tax1,tax2,mode,uniprot'' @ [CHR 0x0A]) # rows) \<and>
     rows = concat (map (\<lambda>sp. map (\<lambda>(idx, val). str_join '','' (run_id sp (idx + 1) # val) @ [CHR 0x0A])
                                 (enumerate 0 (map snd (filter (\<lambda>r. fst r = sp) recs))))
                        (sort (remdups (map fst recs)))) \<and>
     sorted_wrt (<) (sort (remdups (map fst recs))) \<and>
     (\<forall>r \<in> set recs. length (snd r) = 5) \<and>
     length rows = length recs \<and>
     length recs = length (filter (\<lambda>l. str_strip l \<noteq> []) (data_lines text))"
proof -
  from assms obtain w d where rd: "read_samplesheet text = (w, Inr d)"
    and cs: "check_samplesheet text = \<lparr>stdout = w, status = 0, file_out = Some (write_samplesheet d)\<rparr>"
    by (rule check_samplesheet_success)
  let ?recs = "validated_records (data_lines text)"
  let ?keys = "sort (remdups (map fst ?recs))"
  let ?rows = "concat (map (\<lambda>sp. map (\<lambda>(idx, val). str_join '','' (run_id sp (idx + 1) # val) @ [CHR 0x0A])
                                 (enumerate 0 (map snd (filter (\<lambda>r. fst r = sp) ?recs)))) ?keys)"
  from grouped_read_samplesheet [OF rd] have g: "grouped d ?recs" .
  have 1: "file_out (check_samplesheet text) =
       Some ((''species,file,tax1,tax2,mode,uniprot'' @ [CHR 0x0A]) # ?rows)"
    by (simp add: cs write_samplesheet_grouped [OF g])
  have 2: "sorted_wrt (<) ?keys"
    by (simp add: strict_sorted_iff)
  have 3: "\<forall>r \<in> set ?recs. length (snd r) = 5"
  proof
    fix r assume "r \<in> set ?recs"
    then have "(fst r, snd r) \<in> set ?recs" by simp
    from validated_records_mem [OF this] show "length (snd r) = 5"
      using validate_row_length_info by blast
  qed
  have "length ?rows = sum_list (map (\<lambda>k. length (filter (\<lambda>r. fst r = k) ?recs)) ?keys)"
    by (simp add: length_concat_map)
  also have "\<dots> = length ?recs"
    by (rule sum_list_group_lengths) simp_all
  finally have 4: "length ?rows = length ?recs" .
  have 5: "length ?recs = length (filter (\<lambda>l. str_strip l \<noteq> []) (data_lines text))"
    using check_lines_all_validated [OF read_samplesheet_Inr [OF rd]]
    by (simp add: data_lines_def)
  from 1 2 3 4 5 show ?thesis by blast
qed

theorem output_file_layout_witness:
  "status (check_samplesheet (''species,file,tax1,tax2,mode,uniprot'' @ [CHR 0x0A] @
      ''dog,d.fa,l1,l2,m,u'' @ [CHR 0x0A] @ ''cat,b.fa,l1,l2,m,u'' @ [CHR 0x0A] @ [CHR 0x0A] @
      ''cat,a.fa,l1,l2,m,u'' @ [CHR 0x0A])) = 0 \<and>
   file_out (check_samplesheet (''species,file,tax1,tax2,mode,uniprot'' @ [CHR 0x0A] @
      ''dog,d.fa,l1,l2,m,u'' @ [CHR 0x0A] @ ''cat,b.fa,l1,l2,m,u'' @ [CHR 0x0A] @ [CHR 0x0A] @
      ''cat,a.fa,l1,l2,m,u'' @ [CHR 0x0A])) =
     Some [''species,file,tax1,tax2,mode,uniprot'' @ [CHR 0x0A],
           ''cat_T1,b.fa,l1,l2,m,u'' @ [CHR 0x0A], ''cat_T2,a.fa,l1,l2,m,u'' @ [CHR 0x0A],
           ''dog_T1,d.fa,l1,l2,m,u'' @ [CHR 0x0A]]"
proof -
  let ?t = "''species,file,tax1,tax2,mode,uniprot'' @ [CHR 0x0A] @
      ''dog,d.fa,l1,l2,m,u'' @ [CHR 0x0A] @ ''cat,b.fa,l1,l2,m,u'' @ [CHR 0x0A] @ [CHR 0x0A] @
      ''cat,a.fa,l1,l2,m,u'' @ [CHR 0x0A]"
  let ?recs = "[(''dog'', [''d.fa'', ''l1'', ''l2'', ''m'', ''u'']),
                (''cat'', [''b.fa'', ''l1'', ''l2'', ''m'', ''u'']),
                (''cat'', [''a.fa'', ''l1'', ''l2'', ''m'', ''u''])]"
  have s: "status (check_samplesheet ?t) = 0" by code_simp
  have r: "validated_records (data_lines ?t) = ?recs" by code_simp
  have e: "concat (map (\<lambda>sp. map (\<lambda>(idx, val). str_join '','' (run_id sp (idx + 1) # val) @ [CHR 0x0A])
                                 (enumerate 0 (map snd (filter (\<lambda>r. fst r = sp) ?recs))))
                        (sort (remdups (map fst ?recs)))) =
        [''cat_T1,b.fa,l1,l2,m,u'' @ [CHR 0x0A], ''cat_T2,a.fa,l1,l2,m,u'' @ [CHR 0x0A],
           ''dog_T1,d.fa,l1,l2,m,u'' @ [CHR 0x0A]]"
    by code_simp
  from output_file_layout [OF s] have "file_out (check_samplesheet ?t) =
       Some ((''species,file,tax1,tax2,mode,uniprot'' @ [CHR 0x0A]) #
         concat (map (\<lambda>sp. map (\<lambda>(idx, val). str_join '','' (run_id sp (idx + 1) # val) @ [CHR 0x0A])
                                 (enumerate 0 (map snd (filter (\<lambda>r. fst r = sp) ?recs))))
                        (sort (remdups (map fst ?recs)))))"
    unfolding r by blast
  with s show ?thesis unfolding e by simp
qed

section \<open>Running the validator on its own output\<close>




























































end
